theory Spec2Isabelle
  imports Main
begin

section \<open>Texture atlas: data model\<close>

text \<open>
  The packer reads only the pixel dimensions of an \<open>HTMLImageElement\<close>. Both are
  \<open>unsigned long\<close> attributes, so they are natural numbers; every sum the packer forms
  stays far below \<open>2 ^ 53\<close>, where JavaScript numbers are exact.
\<close>

record HTMLImageElement =
  image_width :: nat
  image_height :: nat

record TextureAtlasRecord =
  top_left_x :: nat
  top_left_y :: nat
  width :: nat
  height :: nat

record TextureAtlasPlan =
  plan_width :: nat
  plan_height :: nat
  records :: "TextureAtlasRecord list"

text \<open>
  The \<open>throw new Error(...)\<close> sites of \<open>planPacking\<close> and \<open>packCanvas\<close>, one constructor
  each, and the \<open>TypeError\<close> the runtime raises when \<open>packCanvas\<close> reads a field of a
  record that the plan does not have.
\<close>

datatype error =
  WidthExceeded
  | HeightExceeded
  | CanvasContextUnavailable
  | UndefinedRecord

definition MAX_DIMENSION :: nat where
  "MAX_DIMENSION = 4096"

section \<open>Texture atlas: \<open>planPacking\<close>\<close>

text \<open>The mutable locals of \<open>planPacking\<close>, together with the plan under construction.\<close>

record pack_state =
  current_x :: nat
  current_row_height :: nat
  plan :: TextureAtlasPlan

definition initial_pack_state :: pack_state where
  "initial_pack_state =
     \<lparr>current_x = 0, current_row_height = 0,
      plan = \<lparr>plan_width = 0, plan_height = 0, records = []\<rparr>\<rparr>"

text \<open>The row-wrap decision: \<open>if (current_x + image.width > MAX_DIMENSION) {...}\<close>.\<close>

definition wrap_row :: "pack_state \<Rightarrow> HTMLImageElement \<Rightarrow> pack_state" where
  "wrap_row s img =
     (if current_x s + image_width img > MAX_DIMENSION
      then s\<lparr>current_x := 0,
             plan := (plan s)\<lparr>plan_height := plan_height (plan s) + current_row_height s\<rparr>,
             current_row_height := 0\<rparr>
      else s)"

text \<open>Pushing the record and advancing the cursor (the tail of the loop body).\<close>

definition insert_image :: "pack_state \<Rightarrow> HTMLImageElement \<Rightarrow> pack_state" where
  "insert_image s img =
     (let record = \<lparr>top_left_x = current_x s, top_left_y = plan_height (plan s),
                    width = image_width img, height = image_height img\<rparr>;
          s1 = s\<lparr>plan := (plan s)\<lparr>records := records (plan s) @ [record]\<rparr>\<rparr>;
          s2 = s1\<lparr>current_x := current_x s1 + image_width img\<rparr>;
          s3 = (if current_x s2 > plan_width (plan s2)
                then s2\<lparr>plan := (plan s2)\<lparr>plan_width := current_x s2\<rparr>\<rparr>
                else s2);
          s4 = (if image_height img > current_row_height s3
                then s3\<lparr>current_row_height := image_height img\<rparr>
                else s3)
      in s4)"

text \<open>One iteration of the \<open>for (let image of images)\<close> loop.\<close>

definition pack_image :: "pack_state \<Rightarrow> HTMLImageElement \<Rightarrow> error + pack_state" where
  "pack_image s img =
     (if image_width img > MAX_DIMENSION then Inl WidthExceeded
      else
        let s1 = wrap_row s img
        in if plan_height (plan s1) + image_height img > MAX_DIMENSION then Inl HeightExceeded
           else Inr (insert_image s1 img))"

fun pack_loop :: "pack_state \<Rightarrow> HTMLImageElement list \<Rightarrow> error + pack_state" where
  "pack_loop s [] = Inr s"
| "pack_loop s (img # images) =
     (case pack_image s img of
        Inl e \<Rightarrow> Inl e
      | Inr s' \<Rightarrow> pack_loop s' images)"

definition planPacking :: "HTMLImageElement list \<Rightarrow> error + TextureAtlasPlan" where
  "planPacking images =
     (case pack_loop initial_pack_state images of
        Inl e \<Rightarrow> Inl e
      | Inr s \<Rightarrow> Inr (plan s))"

section \<open>Texture atlas: \<open>packCanvas\<close>\<close>



section \<open>Rows of the shelf layout\<close>

text \<open>
  The rows the wrap rule cuts the input into, stated on the images alone: an image opens
  a new row exactly when the widths already in the current row plus its own exceed
  \<open>MAX_DIMENSION\<close>.
\<close>

definition row_width :: "HTMLImageElement list \<Rightarrow> nat" where
  "row_width row = sum_list (map image_width row)"

definition row_height :: "HTMLImageElement list \<Rightarrow> nat" where
  "row_height row = Max (set (0 # map image_height row))"

fun rows_from :: "HTMLImageElement list \<Rightarrow> HTMLImageElement list \<Rightarrow> HTMLImageElement list list" where
  "rows_from cur [] = [cur]"
| "rows_from cur (img # images) =
     (if row_width cur + image_width img > MAX_DIMENSION
      then cur # rows_from [img] images
      else rows_from (cur @ [img]) images)"

definition rows :: "HTMLImageElement list \<Rightarrow> HTMLImageElement list list" where
  "rows images = rows_from [] images"

definition total_packed_height :: "HTMLImageElement list \<Rightarrow> nat" where
  "total_packed_height images = sum_list (map row_height (rows images))"

text \<open>Two placement rectangles overlap when they share a pixel.\<close>

definition overlap :: "TextureAtlasRecord \<Rightarrow> TextureAtlasRecord \<Rightarrow> bool" where
  "overlap a b \<longleftrightarrow>
     top_left_x a < top_left_x b + width b \<and> top_left_x b < top_left_x a + width a \<and>
     top_left_y a < top_left_y b + height b \<and> top_left_y b < top_left_y a + height a"

section \<open>Frame loop: \<open>Game.start\<close> and \<open>doMainLoop\<close>\<close>

text \<open>
  The three managers are opaque collaborators. All the loop can observe of a call is
  whether it returns or throws, so a call is modelled by its outcome, and the host (the
  window) by the number of pending animation-frame callbacks and the trace of calls made
  so far.
\<close>

datatype 'e outcome = Returns | Throws 'e

datatype 'e event =
  Initialize
  | RequestAnimationFrame
  | DoInputProcessing
  | DoUpdateGameState
  | DoRender
  | ConsoleError 'e
  | Uncaught 'e

record 'e tick_outcomes =
  input_outcome :: "'e outcome"
  state_outcome :: "'e outcome"
  render_outcome :: "'e outcome"

record 'e host =
  scheduled :: nat
  trace :: "'e event list"

definition initial_host :: "'e host" where
  "initial_host = \<lparr>scheduled = 0, trace = []\<rparr>"

text \<open>A call to a collaborator: it is recorded, and it returns or throws.\<close>

definition call :: "'e event \<Rightarrow> 'e outcome \<Rightarrow> 'e host \<Rightarrow> ('e + unit) \<times> 'e host" where
  "call ev out h =
     (case out of Returns \<Rightarrow> Inr () | Throws e \<Rightarrow> Inl e, h\<lparr>trace := trace h @ [ev]\<rparr>)"

definition requestAnimationFrame :: "'e host \<Rightarrow> 'e host" where
  "requestAnimationFrame h =
     h\<lparr>scheduled := Suc (scheduled h), trace := trace h @ [RequestAnimationFrame]\<rparr>"

definition console_error :: "'e \<Rightarrow> 'e host \<Rightarrow> 'e host" where
  "console_error e h = h\<lparr>trace := trace h @ [ConsoleError e]\<rparr>"

text \<open>The body of the \<open>try\<close> block of \<open>main\<close>: the first throw leaves the block.\<close>

definition main_try :: "'e tick_outcomes \<Rightarrow> 'e host \<Rightarrow> ('e + unit) \<times> 'e host" where
  "main_try env h =
     (case call DoInputProcessing (input_outcome env) h of
        (Inl e, h1) \<Rightarrow> (Inl e, h1)
      | (Inr _, h1) \<Rightarrow>
          (case call DoUpdateGameState (state_outcome env) h1 of
             (Inl e, h2) \<Rightarrow> (Inl e, h2)
           | (Inr _, h2) \<Rightarrow> call DoRender (render_outcome env) h2))"

text \<open>The closure \<open>main\<close>: schedule the next frame, then \<open>try {...} catch (e) {console.error(e)}\<close>.\<close>

definition main :: "'e tick_outcomes \<Rightarrow> 'e host \<Rightarrow> ('e + unit) \<times> 'e host" where
  "main env h =
     (let h0 = requestAnimationFrame h
      in case main_try env h0 of
           (Inl e, h1) \<Rightarrow> (Inr (), console_error e h1)
         | (Inr u, h1) \<Rightarrow> (Inr u, h1))"

definition doMainLoop :: "'e tick_outcomes \<Rightarrow> 'e host \<Rightarrow> ('e + unit) \<times> 'e host" where
  "doMainLoop env h = main env h"

text \<open>The first statement of \<open>start\<close>: \<open>try {initialize()} catch (e) {console.error(e)}\<close>.\<close>

definition initialize_display :: "'e outcome \<Rightarrow> 'e host \<Rightarrow> 'e host" where
  "initialize_display init h =
     (case call Initialize init h of
        (Inl e, h1) \<Rightarrow> console_error e h1
      | (Inr _, h1) \<Rightarrow> h1)"

definition start :: "'e outcome \<Rightarrow> 'e tick_outcomes \<Rightarrow> 'e host \<Rightarrow> ('e + unit) \<times> 'e host" where
  "start init env h = doMainLoop env (initialize_display init h)"

text \<open>
  The host side. An exception that leaves a function the host called is reported by the
  host. At each animation frame the host takes the pending callbacks and runs them.
\<close>

definition host_call :: "('e host \<Rightarrow> ('e + unit) \<times> 'e host) \<Rightarrow> 'e host \<Rightarrow> 'e host" where
  "host_call f h =
     (case f h of
        (Inl e, h1) \<Rightarrow> h1\<lparr>trace := trace h1 @ [Uncaught e]\<rparr>
      | (Inr _, h1) \<Rightarrow> h1)"

primrec run_callbacks :: "nat \<Rightarrow> 'e tick_outcomes \<Rightarrow> 'e host \<Rightarrow> 'e host" where
  "run_callbacks 0 env h = h"
| "run_callbacks (Suc n) env h = run_callbacks n env (host_call (main env) h)"

definition animation_frame :: "'e tick_outcomes \<Rightarrow> 'e host \<Rightarrow> 'e host" where
  "animation_frame env h = run_callbacks (scheduled h) env (h\<lparr>scheduled := 0\<rparr>)"

text \<open>
  The host after \<open>n\<close> ticks, where \<open>envs k\<close> says what the managers do in tick \<open>k\<close>
  (counted from 1). Tick 1 is the direct call \<open>main()\<close> at the end of \<open>start\<close>; every later
  tick is an animation frame. At \<open>0\<close> the display has been initialised and \<open>doMainLoop\<close>
  is about to be entered.
\<close>

fun after_ticks :: "'e outcome \<Rightarrow> (nat \<Rightarrow> 'e tick_outcomes) \<Rightarrow> nat \<Rightarrow> 'e host" where
  "after_ticks init envs 0 = initialize_display init initial_host"
| "after_ticks init envs (Suc 0) = host_call (start init (envs (Suc 0))) initial_host"
| "after_ticks init envs (Suc (Suc n)) =
     animation_frame (envs (Suc (Suc n))) (after_ticks init envs (Suc n))"

text \<open>
  A run in which the state update of tick 1, the input processing of tick 2 and the
  rendering of tick 3 throw, and every later call returns.
\<close>

definition failing_ticks :: "nat \<Rightarrow> string tick_outcomes" where
  "failing_ticks k =
     (if k = Suc 0
      then \<lparr>input_outcome = Returns, state_outcome = Throws ''state'', render_outcome = Returns\<rparr>
      else if k = Suc (Suc 0)
      then \<lparr>input_outcome = Throws ''input'', state_outcome = Returns, render_outcome = Returns\<rparr>
      else if k = Suc (Suc (Suc 0))
      then \<lparr>input_outcome = Returns, state_outcome = Returns, render_outcome = Throws ''render''\<rparr>
      else \<lparr>input_outcome = Returns, state_outcome = Returns, render_outcome = Returns\<rparr>)"

text \<open>The packing example of the specification: two small images and one that must wrap.\<close>

definition example_images :: "HTMLImageElement list" where
  "example_images =
     [\<lparr>image_width = 100, image_height = 50\<rparr>,
      \<lparr>image_width = 100, image_height = 50\<rparr>,
      \<lparr>image_width = 4050, image_height = 50\<rparr>]"

definition example_plan :: TextureAtlasPlan where
  "example_plan =
     \<lparr>plan_width = 4050, plan_height = 50,
      records = [\<lparr>top_left_x = 0, top_left_y = 0, width = 100, height = 50\<rparr>,
                 \<lparr>top_left_x = 100, top_left_y = 0, width = 100, height = 50\<rparr>,
                 \<lparr>top_left_x = 0, top_left_y = 50, width = 4050, height = 50\<rparr>]\<rparr>"

section \<open>The loop body, field by field\<close>

lemma pack_image_Inr:
  "pack_image s img = Inr s' \<longleftrightarrow>
     image_width img \<le> MAX_DIMENSION \<and>
     plan_height (plan (wrap_row s img)) + image_height img \<le> MAX_DIMENSION \<and>
     s' = insert_image (wrap_row s img) img"
  by (auto simp: pack_image_def Let_def)

lemma pack_image_Inl:
  "pack_image s img = Inl e \<longleftrightarrow>
     (e = WidthExceeded \<and> image_width img > MAX_DIMENSION) \<or>
     (e = HeightExceeded \<and> image_width img \<le> MAX_DIMENSION \<and>
      plan_height (plan (wrap_row s img)) + image_height img > MAX_DIMENSION)"
  by (auto simp: pack_image_def Let_def)

lemma insert_image_fields:
  "current_x (insert_image s img) = current_x s + image_width img"
  "current_row_height (insert_image s img) = max (current_row_height s) (image_height img)"
  "plan_height (plan (insert_image s img)) = plan_height (plan s)"
  "plan_width (plan (insert_image s img)) = max (plan_width (plan s)) (current_x s + image_width img)"
  "records (plan (insert_image s img)) =
     records (plan s) @ [\<lparr>top_left_x = current_x s, top_left_y = plan_height (plan s),
                           width = image_width img, height = image_height img\<rparr>]"
  by (simp_all add: insert_image_def Let_def max_def)

lemma wrap_row_fields:
  "current_x (wrap_row s img) =
     (if current_x s + image_width img > MAX_DIMENSION then 0 else current_x s)"
  "current_row_height (wrap_row s img) =
     (if current_x s + image_width img > MAX_DIMENSION then 0 else current_row_height s)"
  "plan_height (plan (wrap_row s img)) =
     (if current_x s + image_width img > MAX_DIMENSION
      then plan_height (plan s) + current_row_height s else plan_height (plan s))"
  "plan_width (plan (wrap_row s img)) = plan_width (plan s)"
  "records (plan (wrap_row s img)) = records (plan s)"
  by (simp_all add: wrap_row_def)

section \<open>The loop as a whole\<close>

lemma pack_loop_append:
  "pack_loop s (xs @ ys) =
     (case pack_loop s xs of Inl e \<Rightarrow> Inl e | Inr s' \<Rightarrow> pack_loop s' ys)"
  by (induction xs arbitrary: s) (auto split: sum.splits)

lemma pack_loop_snoc_Inr:
  "pack_loop s (xs @ [x]) = Inr s' \<longleftrightarrow>
     (\<exists>s0. pack_loop s xs = Inr s0 \<and> pack_image s0 x = Inr s')"
  by (auto simp: pack_loop_append split: sum.splits)

lemma pack_loop_take:
  assumes "pack_loop s images = Inr s'"
  shows "\<exists>s0. pack_loop s (take k images) = Inr s0 \<and> pack_loop s0 (drop k images) = Inr s'"
  using assms pack_loop_append[of s "take k images" "drop k images"]
  by (auto split: sum.splits)

lemma pack_loop_extends:
  "pack_loop s images = Inr s' \<Longrightarrow>
     plan_height (plan s) \<le> plan_height (plan s') \<and>
     (\<exists>new. records (plan s') = records (plan s) @ new)"
proof (induction images arbitrary: s)
  case Nil
  then show ?case by simp
next
  case (Cons img images)
  then obtain s1 where s1: "pack_image s img = Inr s1" "pack_loop s1 images = Inr s'"
    by (auto split: sum.splits)
  from s1(1) have "plan_height (plan s) \<le> plan_height (plan s1)"
    "records (plan s1) = records (plan s) @
       [\<lparr>top_left_x = current_x (wrap_row s img), top_left_y = plan_height (plan (wrap_row s img)),
         width = image_width img, height = image_height img\<rparr>]"
    by (simp_all add: pack_image_Inr insert_image_fields wrap_row_fields)
  with Cons.IH[OF s1(2)] show ?case by auto
qed

lemma pack_loop_Inl:
  "pack_loop s images = Inl e \<longleftrightarrow>
     (\<exists>k < length images. \<exists>s0. pack_loop s (take k images) = Inr s0 \<and>
        pack_image s0 (images ! k) = Inl e)"
proof (induction images arbitrary: s)
  case Nil
  show ?case by simp
next
  case (Cons img images)
  show ?case
  proof (cases "pack_image s img")
    case (Inl e')
    have "(\<exists>k < length (img # images). \<exists>s0. pack_loop s (take k (img # images)) = Inr s0 \<and>
            pack_image s0 ((img # images) ! k) = Inl e) \<longleftrightarrow> e' = e"
    proof
      assume "\<exists>k < length (img # images). \<exists>s0. pack_loop s (take k (img # images)) = Inr s0 \<and>
                pack_image s0 ((img # images) ! k) = Inl e"
      then obtain k s0 where k: "pack_loop s (take k (img # images)) = Inr s0"
        "pack_image s0 ((img # images) ! k) = Inl e" by blast
      show "e' = e" using k Inl by (cases k) simp_all
    next
      assume "e' = e"
      then have "pack_loop s (take 0 (img # images)) = Inr s \<and>
                 pack_image s ((img # images) ! 0) = Inl e" using Inl by simp
      then show "\<exists>k < length (img # images). \<exists>s0. pack_loop s (take k (img # images)) = Inr s0 \<and>
                   pack_image s0 ((img # images) ! k) = Inl e" by blast
    qed
    with Inl show ?thesis by auto
  next
    case (Inr s1)
    have "(\<exists>k < length (img # images). \<exists>s0. pack_loop s (take k (img # images)) = Inr s0 \<and>
            pack_image s0 ((img # images) ! k) = Inl e) \<longleftrightarrow>
          (\<exists>k < length images. \<exists>s0. pack_loop s1 (take k images) = Inr s0 \<and>
            pack_image s0 (images ! k) = Inl e)"
    proof
      assume "\<exists>k < length (img # images). \<exists>s0. pack_loop s (take k (img # images)) = Inr s0 \<and>
                pack_image s0 ((img # images) ! k) = Inl e"
      then obtain k s0 where k: "k < length (img # images)"
        "pack_loop s (take k (img # images)) = Inr s0"
        "pack_image s0 ((img # images) ! k) = Inl e" by blast
      show "\<exists>k < length images. \<exists>s0. pack_loop s1 (take k images) = Inr s0 \<and>
              pack_image s0 (images ! k) = Inl e"
      proof (cases k)
        case 0
        with k Inr show ?thesis by simp
      next
        case (Suc k')
        with k Inr have "k' < length images" "pack_loop s1 (take k' images) = Inr s0"
          "pack_image s0 (images ! k') = Inl e" by simp_all
        then show ?thesis by blast
      qed
    next
      assume "\<exists>k < length images. \<exists>s0. pack_loop s1 (take k images) = Inr s0 \<and>
                pack_image s0 (images ! k) = Inl e"
      then obtain k s0 where k: "k < length images" "pack_loop s1 (take k images) = Inr s0"
        "pack_image s0 (images ! k) = Inl e" by blast
      then have "Suc k < length (img # images)"
        "pack_loop s (take (Suc k) (img # images)) = Inr s0"
        "pack_image s0 ((img # images) ! Suc k) = Inl e" using Inr by simp_all
      then show "\<exists>k < length (img # images). \<exists>s0. pack_loop s (take k (img # images)) = Inr s0 \<and>
                   pack_image s0 ((img # images) ! k) = Inl e" by blast
    qed
    with Inr Cons.IH[of s1] show ?thesis by simp
  qed
qed

lemma pack_loop_Inr_widths:
  "pack_loop s images = Inr s' \<Longrightarrow> \<forall>img \<in> set images. image_width img \<le> MAX_DIMENSION"
  by (induction images arbitrary: s) (auto simp: pack_image_Inr split: sum.splits)

lemma planPacking_Inr:
  "planPacking images = Inr p \<longleftrightarrow> (\<exists>s. pack_loop initial_pack_state images = Inr s \<and> p = plan s)"
  by (auto simp: planPacking_def split: sum.splits)

lemma planPacking_Inl:
  "planPacking images = Inl e \<longleftrightarrow> pack_loop initial_pack_state images = Inl e"
  by (auto simp: planPacking_def split: sum.splits)

lemma planPacking_example: "planPacking example_images = Inr example_plan"
  by (simp add: planPacking_def pack_image_def wrap_row_def insert_image_def
      initial_pack_state_def MAX_DIMENSION_def Let_def example_images_def example_plan_def)

text \<open>Induction over the states the loop reaches from the empty plan.\<close>

lemma pack_loop_induct [consumes 1, case_names init step]:
  assumes run: "pack_loop initial_pack_state images = Inr s"
    and init: "P [] initial_pack_state"
    and step: "\<And>xs x s0. pack_loop initial_pack_state xs = Inr s0 \<Longrightarrow> P xs s0 \<Longrightarrow>
                 image_width x \<le> MAX_DIMENSION \<Longrightarrow>
                 plan_height (plan (wrap_row s0 x)) + image_height x \<le> MAX_DIMENSION \<Longrightarrow>
                 P (xs @ [x]) (insert_image (wrap_row s0 x) x)"
  shows "P images s"
  using run
proof (induction images arbitrary: s rule: rev_induct)
  case Nil
  then show ?case using init by simp
next
  case (snoc x xs)
  then obtain s0 where s0: "pack_loop initial_pack_state xs = Inr s0" "pack_image s0 x = Inr s"
    by (auto simp: pack_loop_snoc_Inr)
  from s0(2) have "s = insert_image (wrap_row s0 x) x" "image_width x \<le> MAX_DIMENSION"
    "plan_height (plan (wrap_row s0 x)) + image_height x \<le> MAX_DIMENSION"
    by (simp_all add: pack_image_Inr)
  with step[OF s0(1) snoc.IH[OF s0(1)]] show ?case by simp
qed

lemma pack_loop_dims:
  assumes "pack_loop initial_pack_state images = Inr s"
  shows "map width (records (plan s)) = map image_width images \<and>
         map height (records (plan s)) = map image_height images"
  using assms
  by (induction rule: pack_loop_induct)
     (simp_all add: initial_pack_state_def insert_image_fields wrap_row_fields)

lemma pack_loop_bounds:
  assumes "pack_loop initial_pack_state images = Inr s"
  shows "current_x s \<le> plan_width (plan s) \<and> plan_width (plan s) \<le> MAX_DIMENSION \<and>
         plan_height (plan s) + current_row_height s \<le> MAX_DIMENSION \<and>
         (\<forall>r \<in> set (records (plan s)). top_left_x r + width r \<le> plan_width (plan s))"
  using assms
proof (induction rule: pack_loop_induct)
  case init
  then show ?case by (simp add: initial_pack_state_def)
next
  case (step xs x s0)
  then show ?case
    by (auto simp: insert_image_fields wrap_row_fields max_def split: if_splits)
qed

lemma pack_loop_geometry:
  assumes "pack_loop initial_pack_state images = Inr s"
  shows "(\<forall>r \<in> set (records (plan s)).
            top_left_y r + height r \<le> plan_height (plan s) \<or>
            (top_left_y r = plan_height (plan s) \<and> top_left_x r + width r \<le> current_x s \<and>
             height r \<le> current_row_height s)) \<and>
         sorted_wrt (\<lambda>a b. \<not> overlap a b) (records (plan s)) \<and>
         sorted (map top_left_y (records (plan s)))"
  using assms
proof (induction rule: pack_loop_induct)
  case init
  then show ?case by (simp add: initial_pack_state_def)
next
  case (step xs x s0)
  then show ?case
    by (auto simp: insert_image_fields wrap_row_fields sorted_wrt_append sorted_append overlap_def
        split: if_splits)
qed

lemma Max_set_snoc: "Max (set (0 # xs @ [a])) = max (Max (set (0 # xs))) (a::nat)"
proof -
  have "set (0 # xs @ [a]) = insert a (set (0 # xs))" by auto
  then show ?thesis by (simp add: max.commute)
qed

lemma pack_loop_width_max:
  assumes "pack_loop initial_pack_state images = Inr s"
  shows "plan_width (plan s) = Max (set (0 # map (\<lambda>r. top_left_x r + width r) (records (plan s))))"
  using assms
proof (induction rule: pack_loop_induct)
  case init
  then show ?case by (simp add: initial_pack_state_def)
next
  case (step xs x s0)
  have "Max (set (0 # map (\<lambda>r. top_left_x r + width r) (records (plan (insert_image (wrap_row s0 x) x)))))
        = max (Max (set (0 # map (\<lambda>r. top_left_x r + width r) (records (plan s0)))))
              (current_x (wrap_row s0 x) + image_width x)"
    using Max_set_snoc[of "map (\<lambda>r. top_left_x r + width r) (records (plan s0))"
                          "current_x (wrap_row s0 x) + image_width x"]
    by (simp add: insert_image_fields wrap_row_fields)
  with step.IH show ?case
    by (simp add: insert_image_fields wrap_row_fields)
qed

lemma row_width_simps:
  "row_width [] = 0"
  "row_width [x] = image_width x"
  "row_width (row @ [x]) = row_width row + image_width x"
  by (simp_all add: row_width_def)

lemma row_height_simps:
  "row_height [] = 0"
  "row_height [x] = image_height x"
  "row_height (row @ [x]) = max (row_height row) (image_height x)"
  using Max_set_snoc[of "map image_height row" "image_height x"]
  by (simp_all add: row_height_def)

lemma rows_from_nonempty: "rows_from cur images \<noteq> []"
  by (induction images arbitrary: cur) auto

lemma rows_from_snoc:
  "rows_from cur (xs @ [x]) =
     (if row_width (last (rows_from cur xs)) + image_width x > MAX_DIMENSION
      then rows_from cur xs @ [[x]]
      else butlast (rows_from cur xs) @ [last (rows_from cur xs) @ [x]])"
  by (induction xs arbitrary: cur) (auto simp: rows_from_nonempty)

lemma rows_snoc:
  "rows (xs @ [x]) =
     (if row_width (last (rows xs)) + image_width x > MAX_DIMENSION
      then rows xs @ [[x]]
      else butlast (rows xs) @ [last (rows xs) @ [x]])"
  unfolding rows_def by (rule rows_from_snoc)

lemma rows_nonempty: "rows images \<noteq> []"
  by (simp add: rows_def rows_from_nonempty)

lemma rows_Nil: "rows [] = [[]]"
  by (simp add: rows_def)

lemma sum_rows_split:
  "sum_list (map row_height (rows xs)) =
     sum_list (map row_height (butlast (rows xs))) + row_height (last (rows xs))"
proof -
  have "rows xs = butlast (rows xs) @ [last (rows xs)]"
    using rows_nonempty by simp
  then have "sum_list (map row_height (rows xs)) =
             sum_list (map row_height (butlast (rows xs) @ [last (rows xs)]))" by simp
  then show ?thesis by simp
qed

lemma pack_loop_rows:
  assumes "pack_loop initial_pack_state images = Inr s"
  shows "current_x s = row_width (last (rows images)) \<and>
         current_row_height s = row_height (last (rows images)) \<and>
         plan_height (plan s) = sum_list (map row_height (butlast (rows images)))"
  using assms
proof (induction rule: pack_loop_induct)
  case init
  then show ?case by (simp add: initial_pack_state_def rows_Nil row_width_simps row_height_simps)
next
  case (step xs x s0)
  then show ?case
    by (auto simp: insert_image_fields wrap_row_fields rows_snoc rows_nonempty
        row_width_simps row_height_simps butlast_append sum_rows_split)
qed

lemma total_packed_height_snoc:
  "total_packed_height xs \<le> total_packed_height (xs @ [x])"
  unfolding total_packed_height_def
  by (simp add: rows_snoc sum_rows_split[of xs] row_height_simps)

lemma planPacking_total:
  assumes "\<forall>img \<in> set images. image_width img \<le> MAX_DIMENSION"
    and "total_packed_height images \<le> MAX_DIMENSION"
  shows "\<exists>s. pack_loop initial_pack_state images = Inr s"
  using assms
proof (induction images rule: rev_induct)
  case Nil
  then show ?case by simp
next
  case (snoc x xs)
  have "total_packed_height xs \<le> MAX_DIMENSION"
    using snoc.prems(2) total_packed_height_snoc[of xs x] by simp
  with snoc obtain s0 where s0: "pack_loop initial_pack_state xs = Inr s0" by auto
  note link = pack_loop_rows[OF s0]
  have w: "image_width x \<le> MAX_DIMENSION" using snoc.prems(1) by simp
  have "plan_height (plan (wrap_row s0 x)) + image_height x \<le> total_packed_height (xs @ [x])"
    using link unfolding total_packed_height_def
    by (simp add: wrap_row_fields rows_snoc sum_rows_split[of xs] row_height_simps)
  then have "plan_height (plan (wrap_row s0 x)) + image_height x \<le> MAX_DIMENSION"
    using snoc.prems(2) by simp
  with w s0 show ?case
    by (simp add: pack_loop_snoc_Inr pack_image_Inr)
qed


section \<open>Single records of a finished plan\<close>

lemma overlap_sym: "overlap a b \<longleftrightarrow> overlap b a"
  by (auto simp: overlap_def)

lemma record_at:
  assumes run: "pack_loop initial_pack_state images = Inr s'" and k: "k < length images"
  shows "\<exists>s0. pack_loop initial_pack_state (take k images) = Inr s0 \<and>
           records (plan s') ! k =
             \<lparr>top_left_x = current_x (wrap_row s0 (images ! k)),
              top_left_y = plan_height (plan (wrap_row s0 (images ! k))),
              width = image_width (images ! k), height = image_height (images ! k)\<rparr> \<and>
           plan_height (plan s0) \<le> plan_height (plan (wrap_row s0 (images ! k))) \<and>
           plan_height (plan (wrap_row s0 (images ! k))) \<le> plan_height (plan s')"
proof -
  from pack_loop_take[OF run, of k] obtain s0 where
    s0: "pack_loop initial_pack_state (take k images) = Inr s0"
    and rest: "pack_loop s0 (drop k images) = Inr s'" by blast
  have "drop k images = images ! k # drop (Suc k) images"
    using k by (simp add: Cons_nth_drop_Suc)
  with rest obtain s1 where s1: "pack_image s0 (images ! k) = Inr s1"
    and tl: "pack_loop s1 (drop (Suc k) images) = Inr s'"
    by (auto split: sum.splits)
  from s1 have s1_eq: "s1 = insert_image (wrap_row s0 (images ! k)) (images ! k)"
    by (simp add: pack_image_Inr)
  from pack_loop_dims[OF s0] have "length (map width (records (plan s0))) = length (take k images)"
    by simp
  then have len: "length (records (plan s0)) = k" using k by simp
  from pack_loop_extends[OF tl] obtain new where
    new: "records (plan s') = records (plan s1) @ new"
    and mono: "plan_height (plan s1) \<le> plan_height (plan s')" by blast
  have "records (plan s') ! k =
          \<lparr>top_left_x = current_x (wrap_row s0 (images ! k)),
           top_left_y = plan_height (plan (wrap_row s0 (images ! k))),
           width = image_width (images ! k), height = image_height (images ! k)\<rparr>"
    using new len by (simp add: s1_eq insert_image_fields wrap_row_fields nth_append)
  moreover have "plan_height (plan s0) \<le> plan_height (plan (wrap_row s0 (images ! k)))"
    by (simp add: wrap_row_fields)
  moreover have "plan_height (plan (wrap_row s0 (images ! k))) \<le> plan_height (plan s')"
    using mono by (simp add: s1_eq insert_image_fields)
  ultimately show ?thesis using s0 by blast
qed


section \<open>Properties of \<open>planPacking\<close>\<close>

text \<open>
  C1. Whenever every image is at most \<open>MAX_DIMENSION\<close> wide and high, and the rows the
  images are cut into have heights that sum to at most \<open>MAX_DIMENSION\<close> (the total packed
  height, the last row included), \<open>planPacking\<close> returns a plan: it has one record per
  image, in input order, each with the dimensions of its image, and no two records overlap.
\<close>

theorem planPacking_succeeds_disjoint:
  assumes "\<forall>img \<in> set images. image_width img \<le> MAX_DIMENSION \<and> image_height img \<le> MAX_DIMENSION"
    and "total_packed_height images \<le> MAX_DIMENSION"
  shows "\<exists>p. planPacking images = Inr p \<and>
           length (records p) = length images \<and>
           (\<forall>k < length images. width (records p ! k) = image_width (images ! k) \<and>
                                 height (records p ! k) = image_height (images ! k)) \<and>
           (\<forall>i j. i < length images \<and> j < length images \<and> i \<noteq> j \<longrightarrow>
                    \<not> overlap (records p ! i) (records p ! j))"
proof -
  from assms planPacking_total[of images] obtain s where
    s: "pack_loop initial_pack_state images = Inr s" by auto
  from pack_loop_dims[OF s] have w: "map width (records (plan s)) = map image_width images"
    and h: "map height (records (plan s)) = map image_height images" by simp_all
  from w have len: "length (records (plan s)) = length images"
    using length_map by metis
  have dims: "width (records (plan s) ! k) = image_width (images ! k) \<and>
              height (records (plan s) ! k) = image_height (images ! k)" if "k < length images" for k
  proof -
    have "map width (records (plan s)) ! k = map image_width images ! k"
         "map height (records (plan s)) ! k = map image_height images ! k"
      using w h by simp_all
    then show ?thesis using that len by simp
  qed
  from pack_loop_geometry[OF s] have
    "\<forall>i j. i < j \<longrightarrow> j < length (records (plan s)) \<longrightarrow>
       \<not> overlap (records (plan s) ! i) (records (plan s) ! j)"
    by (simp add: sorted_wrt_iff_nth_less)
  then have disj: "\<not> overlap (records (plan s) ! i) (records (plan s) ! j)"
    if "i < length images" "j < length images" "i \<noteq> j" for i j
    using that len overlap_sym[of "records (plan s) ! i" "records (plan s) ! j"]
    by (cases "i < j") (auto simp: not_less le_less)
  have "planPacking images = Inr (plan s)" using s by (simp add: planPacking_Inr)
  with len dims disj show ?thesis by blast
qed

theorem planPacking_succeeds_disjoint_witness:
  "list_all (\<lambda>img. image_width img \<le> MAX_DIMENSION \<and> image_height img \<le> MAX_DIMENSION)
     example_images \<and>
   total_packed_height example_images \<le> MAX_DIMENSION \<and>
   (\<exists>p. planPacking example_images = Inr p \<and>
      length (records p) = length example_images \<and>
      (\<forall>k < length example_images.
          width (records p ! k) = image_width (example_images ! k) \<and>
          height (records p ! k) = image_height (example_images ! k)) \<and>
      (\<forall>i j. i < length example_images \<and> j < length example_images \<and> i \<noteq> j \<longrightarrow>
               \<not> overlap (records p ! i) (records p ! j)))"
proof -
  have h1: "\<forall>img \<in> set example_images.
              image_width img \<le> MAX_DIMENSION \<and> image_height img \<le> MAX_DIMENSION"
    by (simp add: example_images_def MAX_DIMENSION_def)
  have h2: "total_packed_height example_images \<le> MAX_DIMENSION"
    by (simp add: total_packed_height_def rows_def row_width_def row_height_def
        example_images_def MAX_DIMENSION_def)
  from h1 have h1': "list_all (\<lambda>img. image_width img \<le> MAX_DIMENSION \<and>
                                  image_height img \<le> MAX_DIMENSION) example_images"
    by (simp add: list_all_iff)
  from planPacking_succeeds_disjoint[OF h1 h2] h1' h2 show ?thesis by blast
qed

text \<open>
  C2. Every record of a returned plan is meant to satisfy
  \<open>top_left_x + width \<le> plan.width \<le> MAX_DIMENSION\<close> and
  \<open>top_left_y + height \<le> plan.height \<le> MAX_DIMENSION\<close>. The vertical containment fails: for
  a single image of 10 by 10 pixels the plan has height 0 while the record ends at
  \<open>y = 10\<close>, because the height of the row in progress when the loop ends is never added
  to \<open>plan.height\<close>. The horizontal containment and both bounds by \<open>MAX_DIMENSION\<close> hold
  (lemma \<open>pack_loop_bounds\<close>).
\<close>

theorem trailing_row_missing_from_plan_height:
  "planPacking [\<lparr>image_width = 10, image_height = 10\<rparr>] =
     Inr \<lparr>plan_width = 10, plan_height = 0,
          records = [\<lparr>top_left_x = 0, top_left_y = 0, width = 10, height = 10\<rparr>]\<rparr>"
  by (simp add: planPacking_def pack_image_def wrap_row_def insert_image_def
      initial_pack_state_def MAX_DIMENSION_def Let_def)

text \<open>
  C3. The height of a returned plan is the sum of the heights of the completed rows, that
  is of all rows but the last; the height of the last row is exactly what separates it from
  the total packed height.
\<close>

theorem plan_height_sums_completed_rows:
  assumes "planPacking images = Inr p"
  shows "plan_height p = sum_list (map row_height (butlast (rows images))) \<and>
         plan_height p + row_height (last (rows images)) = total_packed_height images"
proof -
  from assms obtain s where s: "pack_loop initial_pack_state images = Inr s" "p = plan s"
    by (auto simp: planPacking_Inr)
  from pack_loop_rows[OF s(1)] s(2) show ?thesis
    by (simp add: total_packed_height_def sum_rows_split[of images])
qed

theorem plan_height_sums_completed_rows_witness:
  "planPacking example_images = Inr example_plan \<and>
   plan_height example_plan = sum_list (map row_height (butlast (rows example_images))) \<and>
   plan_height example_plan + row_height (last (rows example_images)) =
     total_packed_height example_images"
  using plan_height_sums_completed_rows[OF planPacking_example] planPacking_example by blast

text \<open>
  C4. The width of a returned plan is the largest right edge \<open>top_left_x + width\<close> among its
  records, and 0 when there are no images.
\<close>

theorem plan_width_is_max_right_edge:
  assumes "planPacking images = Inr p"
  shows "(images = [] \<longrightarrow> plan_width p = 0) \<and>
         (images \<noteq> [] \<longrightarrow>
            plan_width p = Max ((\<lambda>r. top_left_x r + width r) ` set (records p)))"
proof -
  from assms obtain s where s: "pack_loop initial_pack_state images = Inr s" "p = plan s"
    by (auto simp: planPacking_Inr)
  let ?E = "(\<lambda>r. top_left_x r + width r) ` set (records p)"
  from pack_loop_width_max[OF s(1)] s(2) have eq: "plan_width p = Max (insert 0 ?E)" by simp
  from pack_loop_dims[OF s(1)] have "length (map width (records (plan s))) = length images"
    by simp
  then have len: "length (records p) = length images" using s(2) by simp
  show ?thesis
  proof (cases "images = []")
    case True
    with len eq show ?thesis by simp
  next
    case False
    with len have "?E \<noteq> {}" by auto
    then have "Max (insert 0 ?E) = max 0 (Max ?E)" by simp
    with eq False show ?thesis by simp
  qed
qed

theorem plan_width_is_max_right_edge_witness:
  "planPacking example_images = Inr example_plan \<and> example_images \<noteq> [] \<and>
   plan_width example_plan = Max ((\<lambda>r. top_left_x r + width r) ` set (records example_plan))"
proof -
  have ne: "example_images \<noteq> []" by (simp add: example_images_def)
  from plan_width_is_max_right_edge[OF planPacking_example] ne planPacking_example
  show ?thesis by blast
qed

text \<open>
  C5. \<open>planPacking\<close> fails exactly when, at some image reached with every earlier image
  packed, either that image is wider than \<open>MAX_DIMENSION\<close> (width failure) or, after the
  row-wrap decision for it, the committed plan height plus its height exceeds
  \<open>MAX_DIMENSION\<close> (height failure). In particular an input that contains an image wider
  than \<open>MAX_DIMENSION\<close> fails wherever that image stands.
\<close>

theorem planPacking_fails_iff:
  "(planPacking images = Inl e \<longleftrightarrow>
      (\<exists>k < length images. \<exists>s. pack_loop initial_pack_state (take k images) = Inr s \<and>
         (e = WidthExceeded \<and> image_width (images ! k) > MAX_DIMENSION \<or>
          e = HeightExceeded \<and> image_width (images ! k) \<le> MAX_DIMENSION \<and>
          plan_height (plan (wrap_row s (images ! k))) + image_height (images ! k)
            > MAX_DIMENSION))) \<and>
   ((\<exists>img \<in> set images. image_width img > MAX_DIMENSION) \<longrightarrow>
      (\<exists>e'. planPacking images = Inl e'))"
proof
  show "planPacking images = Inl e \<longleftrightarrow>
      (\<exists>k < length images. \<exists>s. pack_loop initial_pack_state (take k images) = Inr s \<and>
         (e = WidthExceeded \<and> image_width (images ! k) > MAX_DIMENSION \<or>
          e = HeightExceeded \<and> image_width (images ! k) \<le> MAX_DIMENSION \<and>
          plan_height (plan (wrap_row s (images ! k))) + image_height (images ! k)
            > MAX_DIMENSION))"
    by (simp add: planPacking_Inl pack_loop_Inl pack_image_Inl)
next
  show "(\<exists>img \<in> set images. image_width img > MAX_DIMENSION) \<longrightarrow>
          (\<exists>e'. planPacking images = Inl e')"
  proof
    assume wide: "\<exists>img \<in> set images. image_width img > MAX_DIMENSION"
    show "\<exists>e'. planPacking images = Inl e'"
    proof (cases "pack_loop initial_pack_state images")
      case (Inl e')
      then show ?thesis by (auto simp: planPacking_Inl)
    next
      case (Inr s)
      from pack_loop_Inr_widths[OF Inr] wide show ?thesis by fastforce
    qed
  qed
qed

theorem planPacking_fails_iff_witness:
  "(\<exists>img \<in> set [\<lparr>image_width = 10, image_height = 10\<rparr>, \<lparr>image_width = 5000, image_height = 10\<rparr>].
      image_width img > MAX_DIMENSION) \<and>
   planPacking [\<lparr>image_width = 10, image_height = 10\<rparr>, \<lparr>image_width = 5000, image_height = 10\<rparr>]
     = Inl WidthExceeded \<and>
   (\<exists>k < length [\<lparr>image_width = 10, image_height = 10\<rparr>, \<lparr>image_width = 5000, image_height = 10\<rparr>].
      \<exists>s. pack_loop initial_pack_state
        (take k [\<lparr>image_width = 10, image_height = 10\<rparr>, \<lparr>image_width = 5000, image_height = 10\<rparr>])
          = Inr s \<and>
      (WidthExceeded = WidthExceeded \<and>
       image_width ([\<lparr>image_width = 10, image_height = 10\<rparr>,
                     \<lparr>image_width = 5000, image_height = 10\<rparr>] ! k) > MAX_DIMENSION \<or>
       WidthExceeded = HeightExceeded \<and>
       image_width ([\<lparr>image_width = 10, image_height = 10\<rparr>,
                     \<lparr>image_width = 5000, image_height = 10\<rparr>] ! k) \<le> MAX_DIMENSION \<and>
       plan_height (plan (wrap_row s ([\<lparr>image_width = 10, image_height = 10\<rparr>,
                     \<lparr>image_width = 5000, image_height = 10\<rparr>] ! k))) +
         image_height ([\<lparr>image_width = 10, image_height = 10\<rparr>,
                     \<lparr>image_width = 5000, image_height = 10\<rparr>] ! k) > MAX_DIMENSION))"
proof -
  let ?imgs = "[\<lparr>image_width = 10, image_height = 10\<rparr>, \<lparr>image_width = 5000, image_height = 10\<rparr>]"
  have wide: "\<exists>img \<in> set ?imgs. image_width img > MAX_DIMENSION"
    by (simp add: MAX_DIMENSION_def)
  have run: "planPacking ?imgs = Inl WidthExceeded"
    by (simp add: planPacking_def pack_image_def wrap_row_def insert_image_def
        initial_pack_state_def MAX_DIMENSION_def Let_def)
  from planPacking_fails_iff[of ?imgs WidthExceeded] wide run show ?thesis by blast
qed

text \<open>
  C8. In a returned plan the \<open>top_left_y\<close> of the records never decreases along the input;
  the \<open>top_left_y\<close> of record \<open>k\<close> is the committed plan height right after the row-wrap
  decision for image \<open>k\<close>; and the committed height after a longer prefix of the input is
  at least the one after a shorter prefix.
\<close>

theorem top_left_y_nondecreasing:
  assumes "planPacking images = Inr p"
  shows "sorted (map top_left_y (records p)) \<and>
         (\<forall>k < length images. \<exists>s. pack_loop initial_pack_state (take k images) = Inr s \<and>
            top_left_y (records p ! k) = plan_height (plan (wrap_row s (images ! k)))) \<and>
         (\<forall>j k. j \<le> k \<and> k \<le> length images \<longrightarrow>
            (\<exists>sj sk. pack_loop initial_pack_state (take j images) = Inr sj \<and>
                      pack_loop initial_pack_state (take k images) = Inr sk \<and>
                      plan_height (plan sj) \<le> plan_height (plan sk)))"
proof -
  from assms obtain s where s: "pack_loop initial_pack_state images = Inr s" "p = plan s"
    by (auto simp: planPacking_Inr)
  have a: "sorted (map top_left_y (records p))"
    using pack_loop_geometry[OF s(1)] s(2) by simp
  have b: "\<exists>s0. pack_loop initial_pack_state (take k images) = Inr s0 \<and>
            top_left_y (records p ! k) = plan_height (plan (wrap_row s0 (images ! k)))"
    if "k < length images" for k
  proof -
    from record_at[OF s(1) that] obtain s0 where
      "pack_loop initial_pack_state (take k images) = Inr s0"
      "records (plan s) ! k =
             \<lparr>top_left_x = current_x (wrap_row s0 (images ! k)),
              top_left_y = plan_height (plan (wrap_row s0 (images ! k))),
              width = image_width (images ! k), height = image_height (images ! k)\<rparr>"
      by blast
    then show ?thesis using s(2) by auto
  qed
  have c: "\<exists>sj sk. pack_loop initial_pack_state (take j images) = Inr sj \<and>
                      pack_loop initial_pack_state (take k images) = Inr sk \<and>
                      plan_height (plan sj) \<le> plan_height (plan sk)"
    if "j \<le> k" "k \<le> length images" for j k
  proof -
    from pack_loop_take[OF s(1), of k] obtain sk where
      sk: "pack_loop initial_pack_state (take k images) = Inr sk" by blast
    from pack_loop_take[OF sk, of j] obtain sj where
      sj: "pack_loop initial_pack_state (take j (take k images)) = Inr sj"
      and rest: "pack_loop sj (drop j (take k images)) = Inr sk" by blast
    have "take j (take k images) = take j images" using that by (simp add: min_def)
    with sj have "pack_loop initial_pack_state (take j images) = Inr sj" by simp
    with sk pack_loop_extends[OF rest] show ?thesis by blast
  qed
  from a b c show ?thesis by blast
qed

theorem top_left_y_nondecreasing_witness:
  "planPacking example_images = Inr example_plan \<and>
   sorted (map top_left_y (records example_plan)) \<and>
   (\<exists>s. pack_loop initial_pack_state (take 2 example_images) = Inr s \<and>
      top_left_y (records example_plan ! 2) =
        plan_height (plan (wrap_row s (example_images ! 2)))) \<and>
   (\<exists>sj sk. pack_loop initial_pack_state (take 1 example_images) = Inr sj \<and>
      pack_loop initial_pack_state (take 3 example_images) = Inr sk \<and>
      plan_height (plan sj) \<le> plan_height (plan sk))"
proof -
  have len: "(2::nat) < length example_images" "(1::nat) \<le> 3 \<and> 3 \<le> length example_images"
    by (simp_all add: example_images_def)
  from top_left_y_nondecreasing[OF planPacking_example] len planPacking_example
  show ?thesis by blast
qed

text \<open>
  C9. An image exactly \<open>MAX_DIMENSION\<close> wide passes the width check in every state, is
  packed on its own when its height fits, and in every returned plan its record has
  \<open>top_left_x = 0\<close>.
\<close>

theorem full_width_image_at_row_start:
  "(image_width img = MAX_DIMENSION \<longrightarrow> pack_image s img \<noteq> Inl WidthExceeded) \<and>
   (image_width img = MAX_DIMENSION \<and> image_height img \<le> MAX_DIMENSION \<longrightarrow>
      planPacking [img] =
        Inr \<lparr>plan_width = MAX_DIMENSION, plan_height = 0,
             records = [\<lparr>top_left_x = 0, top_left_y = 0,
                         width = MAX_DIMENSION, height = image_height img\<rparr>]\<rparr>) \<and>
   (planPacking images = Inr p \<longrightarrow>
      (\<forall>k < length images. image_width (images ! k) = MAX_DIMENSION \<longrightarrow>
          top_left_x (records p ! k) = 0))"
proof (intro conjI impI allI)
  assume "image_width img = MAX_DIMENSION"
  then show "pack_image s img \<noteq> Inl WidthExceeded"
    by (simp add: pack_image_Inl)
next
  assume "image_width img = MAX_DIMENSION \<and> image_height img \<le> MAX_DIMENSION"
  then show "planPacking [img] =
        Inr \<lparr>plan_width = MAX_DIMENSION, plan_height = 0,
             records = [\<lparr>top_left_x = 0, top_left_y = 0,
                         width = MAX_DIMENSION, height = image_height img\<rparr>]\<rparr>"
    by (simp add: planPacking_def pack_image_def wrap_row_def insert_image_def
        initial_pack_state_def Let_def)
next
  fix k
  assume run: "planPacking images = Inr p" and k: "k < length images"
    and full: "image_width (images ! k) = MAX_DIMENSION"
  from run obtain s' where s': "pack_loop initial_pack_state images = Inr s'" "p = plan s'"
    by (auto simp: planPacking_Inr)
  from record_at[OF s'(1) k] obtain s0 where
    "records (plan s') ! k =
             \<lparr>top_left_x = current_x (wrap_row s0 (images ! k)),
              top_left_y = plan_height (plan (wrap_row s0 (images ! k))),
              width = image_width (images ! k), height = image_height (images ! k)\<rparr>"
    by blast
  then have "top_left_x (records p ! k) = current_x (wrap_row s0 (images ! k))"
    using s'(2) by simp
  also have "\<dots> = 0" using full by (simp add: wrap_row_fields)
  finally show "top_left_x (records p ! k) = 0" .
qed

theorem full_width_image_at_row_start_witness:
  "image_width \<lparr>image_width = 4096, image_height = 7\<rparr> = MAX_DIMENSION \<and>
   image_height \<lparr>image_width = 4096, image_height = 7\<rparr> \<le> MAX_DIMENSION \<and>
   current_x (insert_image initial_pack_state \<lparr>image_width = 10, image_height = 10\<rparr>) = 10 \<and>
   pack_image (insert_image initial_pack_state \<lparr>image_width = 10, image_height = 10\<rparr>)
     \<lparr>image_width = 4096, image_height = 7\<rparr> \<noteq> Inl WidthExceeded \<and>
   planPacking [\<lparr>image_width = 4096, image_height = 7\<rparr>] =
     Inr \<lparr>plan_width = MAX_DIMENSION, plan_height = 0,
          records = [\<lparr>top_left_x = 0, top_left_y = 0, width = MAX_DIMENSION, height = 7\<rparr>]\<rparr> \<and>
   planPacking [\<lparr>image_width = 10, image_height = 10\<rparr>, \<lparr>image_width = 4096, image_height = 7\<rparr>] =
     Inr \<lparr>plan_width = 4096, plan_height = 10,
          records = [\<lparr>top_left_x = 0, top_left_y = 0, width = 10, height = 10\<rparr>,
                     \<lparr>top_left_x = 0, top_left_y = 10, width = 4096, height = 7\<rparr>]\<rparr> \<and>
   image_width ([\<lparr>image_width = 10, image_height = 10\<rparr>,
                 \<lparr>image_width = 4096, image_height = 7\<rparr>] ! 1) = MAX_DIMENSION \<and>
   top_left_x (records \<lparr>plan_width = 4096, plan_height = 10,
          records = [\<lparr>top_left_x = 0, top_left_y = 0, width = 10, height = 10\<rparr>,
                     \<lparr>top_left_x = 0, top_left_y = 10, width = 4096, height = 7\<rparr>]\<rparr> ! 1) = 0"
proof -
  let ?small = "\<lparr>image_width = 10, image_height = 10\<rparr>"
  let ?img = "\<lparr>image_width = 4096, image_height = 7\<rparr>"
  let ?s = "insert_image initial_pack_state ?small"
  let ?p = "\<lparr>plan_width = 4096, plan_height = 10,
          records = [\<lparr>top_left_x = 0, top_left_y = 0, width = 10, height = 10\<rparr>,
                     \<lparr>top_left_x = 0, top_left_y = 10, width = 4096, height = 7\<rparr>]\<rparr>"
  have w: "image_width ?img = MAX_DIMENSION" and h: "image_height ?img \<le> MAX_DIMENSION"
    by (simp_all add: MAX_DIMENSION_def)
  have cx: "current_x ?s = 10"
    by (simp add: insert_image_fields initial_pack_state_def)
  have run: "planPacking [?small, ?img] = Inr ?p"
    by (simp add: planPacking_def pack_image_def wrap_row_def insert_image_def
        initial_pack_state_def MAX_DIMENSION_def Let_def)
  have k: "(1::nat) < length [?small, ?img]" "image_width ([?small, ?img] ! 1) = MAX_DIMENSION"
    by (simp_all add: MAX_DIMENSION_def)
  note t = full_width_image_at_row_start[of ?img ?s "[?small, ?img]" ?p]
  have a: "pack_image ?s ?img \<noteq> Inl WidthExceeded"
    using t[THEN conjunct1] w by (rule mp)
  have b: "planPacking [?img] =
     Inr \<lparr>plan_width = MAX_DIMENSION, plan_height = 0,
          records = [\<lparr>top_left_x = 0, top_left_y = 0, width = MAX_DIMENSION, height = 7\<rparr>]\<rparr>"
    using t[THEN conjunct2, THEN conjunct1] w h by simp
  have c: "top_left_x (records ?p ! 1) = 0"
    using t[THEN conjunct2, THEN conjunct2] run k by blast
  from w h cx a b run k(2) c show ?thesis by blast
qed



section \<open>The frame loop\<close>

lemma main_result: "fst (main env h) = Inr ()"
  by (simp add: main_def main_try_def call_def Let_def split: outcome.splits prod.splits sum.splits)

lemma main_scheduled: "scheduled (snd (main env h)) = Suc (scheduled h)"
  by (simp add: main_def main_try_def call_def Let_def requestAnimationFrame_def console_error_def
      split: outcome.splits prod.splits sum.splits)

lemma main_trace:
  "trace (snd (main env h)) = trace h @ RequestAnimationFrame # DoInputProcessing #
     (case input_outcome env of
        Throws e \<Rightarrow> [ConsoleError e]
      | Returns \<Rightarrow> DoUpdateGameState #
          (case state_outcome env of
             Throws e \<Rightarrow> [ConsoleError e]
           | Returns \<Rightarrow> DoRender #
               (case render_outcome env of Throws e \<Rightarrow> [ConsoleError e] | Returns \<Rightarrow> [])))"
  by (simp add: main_def main_try_def call_def Let_def requestAnimationFrame_def console_error_def
      split: outcome.splits prod.splits sum.splits)

lemma host_call_main: "host_call (main env) h = snd (main env h)"
  using main_result[of env h]
  by (auto simp: host_call_def split: prod.splits sum.splits)

lemma host_call_start:
  "host_call (start init env) h = snd (main env (initialize_display init h))"
  using main_result[of env "initialize_display init h"]
  by (auto simp: host_call_def start_def doMainLoop_def split: prod.splits sum.splits)

lemma initialize_display_scheduled: "scheduled (initialize_display init h) = scheduled h"
  by (simp add: initialize_display_def call_def console_error_def split: outcome.splits)

lemma after_ticks_Suc:
  "after_ticks init envs (Suc n) =
     (if n = 0 then snd (main (envs (Suc 0)) (after_ticks init envs 0))
      else animation_frame (envs (Suc n)) (after_ticks init envs n))"
  by (cases n) (simp_all add: host_call_start)

lemma animation_frame_one:
  "scheduled h = Suc 0 \<Longrightarrow> animation_frame env h = snd (main env (h\<lparr>scheduled := 0\<rparr>))"
  by (simp add: animation_frame_def host_call_main)

lemma after_ticks_scheduled: "scheduled (after_ticks init envs (Suc n)) = Suc 0"
proof (induction n)
  case 0
  show ?case
    by (simp only: after_ticks_Suc)
       (simp add: main_scheduled initialize_display_scheduled initial_host_def)
next
  case (Suc n)
  show ?case
    by (simp only: after_ticks_Suc[of _ _ "Suc n"])
       (simp add: animation_frame_one[OF Suc] main_scheduled)
qed

lemma after_ticks_trace:
  "trace (after_ticks init envs (Suc n)) = trace (after_ticks init envs n) @
     RequestAnimationFrame # DoInputProcessing #
     (case input_outcome (envs (Suc n)) of
        Throws e \<Rightarrow> [ConsoleError e]
      | Returns \<Rightarrow> DoUpdateGameState #
          (case state_outcome (envs (Suc n)) of
             Throws e \<Rightarrow> [ConsoleError e]
           | Returns \<Rightarrow> DoRender #
               (case render_outcome (envs (Suc n)) of
                  Throws e \<Rightarrow> [ConsoleError e] | Returns \<Rightarrow> [])))"
proof (cases n)
  case 0
  then show ?thesis
    by (simp only: after_ticks_Suc) (simp add: main_trace)
next
  case (Suc m)
  then show ?thesis
    by (simp only: after_ticks_Suc[of _ _ "Suc m"])
       (simp add: animation_frame_one[OF after_ticks_scheduled] main_trace)
qed

lemma initialize_display_trace:
  "trace (initialize_display init h) =
     trace h @ Initialize # (case init of Returns \<Rightarrow> [] | Throws e \<Rightarrow> [ConsoleError e])"
  by (simp add: initialize_display_def call_def console_error_def split: outcome.splits)

lemma after_ticks_no_uncaught: "Uncaught x \<notin> set (trace (after_ticks init envs m))"
proof (induction m)
  case 0
  show ?case by (simp add: initialize_display_trace initial_host_def split: outcome.splits)
next
  case (Suc m)
  then show ?case
    by (simp add: after_ticks_trace del: after_ticks.simps split: outcome.splits)
qed

text \<open>
  C6. When a phase of tick \<open>n + 1\<close> throws, the calls of that tick stop at the throwing
  phase, so the remaining phases are skipped; the exception is logged with
  \<open>console.error\<close> and no exception reaches the host uncaught. After the tick exactly one
  animation-frame callback is pending, and tick \<open>n + 2\<close> starts afresh with
  \<open>requestAnimationFrame\<close> and input processing whatever tick \<open>n + 1\<close> did: it calls input
  processing, state update and render in this order as soon as its own input processing and
  state update return, and nothing else when its render returns as well.
\<close>

theorem tick_failure_is_contained:
  "(input_outcome (envs (Suc n)) = Throws e \<longrightarrow>
      trace (after_ticks init envs (Suc n)) = trace (after_ticks init envs n) @
        [RequestAnimationFrame, DoInputProcessing, ConsoleError e]) \<and>
   (input_outcome (envs (Suc n)) = Returns \<and> state_outcome (envs (Suc n)) = Throws e \<longrightarrow>
      trace (after_ticks init envs (Suc n)) = trace (after_ticks init envs n) @
        [RequestAnimationFrame, DoInputProcessing, DoUpdateGameState, ConsoleError e]) \<and>
   (input_outcome (envs (Suc n)) = Returns \<and> state_outcome (envs (Suc n)) = Returns \<and>
    render_outcome (envs (Suc n)) = Throws e \<longrightarrow>
      trace (after_ticks init envs (Suc n)) = trace (after_ticks init envs n) @
        [RequestAnimationFrame, DoInputProcessing, DoUpdateGameState, DoRender, ConsoleError e]) \<and>
   (\<forall>x. Uncaught x \<notin> set (trace (after_ticks init envs (Suc n)))) \<and>
   scheduled (after_ticks init envs (Suc n)) = 1 \<and>
   (\<exists>rest. trace (after_ticks init envs (Suc (Suc n))) =
      trace (after_ticks init envs (Suc n)) @ RequestAnimationFrame # DoInputProcessing # rest) \<and>
   (input_outcome (envs (Suc (Suc n))) = Returns \<and> state_outcome (envs (Suc (Suc n))) = Returns
      \<longrightarrow>
      (\<exists>rest. trace (after_ticks init envs (Suc (Suc n))) =
         trace (after_ticks init envs (Suc n)) @
         [RequestAnimationFrame, DoInputProcessing, DoUpdateGameState, DoRender] @ rest)) \<and>
   (input_outcome (envs (Suc (Suc n))) = Returns \<and> state_outcome (envs (Suc (Suc n))) = Returns \<and>
    render_outcome (envs (Suc (Suc n))) = Returns \<longrightarrow>
      trace (after_ticks init envs (Suc (Suc n))) = trace (after_ticks init envs (Suc n)) @
        [RequestAnimationFrame, DoInputProcessing, DoUpdateGameState, DoRender])"
proof (intro conjI impI allI)
  assume "input_outcome (envs (Suc (Suc n))) = Returns \<and>
          state_outcome (envs (Suc (Suc n))) = Returns"
  then have "trace (after_ticks init envs (Suc (Suc n))) =
         trace (after_ticks init envs (Suc n)) @
         [RequestAnimationFrame, DoInputProcessing, DoUpdateGameState, DoRender] @
         (case render_outcome (envs (Suc (Suc n))) of
            Returns \<Rightarrow> [] | Throws x \<Rightarrow> [ConsoleError x])"
    by (simp add: after_ticks_trace del: after_ticks.simps)
  then show "\<exists>rest. trace (after_ticks init envs (Suc (Suc n))) =
         trace (after_ticks init envs (Suc n)) @
         [RequestAnimationFrame, DoInputProcessing, DoUpdateGameState, DoRender] @ rest"
    by blast
next
  show "scheduled (after_ticks init envs (Suc n)) = 1"
    by (simp add: after_ticks_scheduled)
next
  fix x
  show "Uncaught x \<notin> set (trace (after_ticks init envs (Suc n)))"
    by (rule after_ticks_no_uncaught)
next
  show "\<exists>rest. trace (after_ticks init envs (Suc (Suc n))) =
      trace (after_ticks init envs (Suc n)) @ RequestAnimationFrame # DoInputProcessing # rest"
    using after_ticks_trace[of init envs "Suc n"] by blast
qed (simp_all add: after_ticks_trace del: after_ticks.simps)

theorem tick_failure_is_contained_witness:
  "input_outcome (failing_ticks (Suc 1)) = Throws ''input'' \<and>
   trace (after_ticks Returns failing_ticks (Suc 1)) = trace (after_ticks Returns failing_ticks 1) @
     [RequestAnimationFrame, DoInputProcessing, ConsoleError ''input''] \<and>
   input_outcome (failing_ticks (Suc 0)) = Returns \<and>
   state_outcome (failing_ticks (Suc 0)) = Throws ''state'' \<and>
   trace (after_ticks Returns failing_ticks (Suc 0)) = trace (after_ticks Returns failing_ticks 0) @
     [RequestAnimationFrame, DoInputProcessing, DoUpdateGameState, ConsoleError ''state''] \<and>
   input_outcome (failing_ticks (Suc 2)) = Returns \<and>
   state_outcome (failing_ticks (Suc 2)) = Returns \<and>
   render_outcome (failing_ticks (Suc 2)) = Throws ''render'' \<and>
   trace (after_ticks Returns failing_ticks (Suc 2)) = trace (after_ticks Returns failing_ticks 2) @
     [RequestAnimationFrame, DoInputProcessing, DoUpdateGameState, DoRender, ConsoleError ''render''] \<and>
   (\<exists>rest. trace (after_ticks Returns failing_ticks (Suc (Suc 1))) =
      trace (after_ticks Returns failing_ticks (Suc 1)) @
      [RequestAnimationFrame, DoInputProcessing, DoUpdateGameState, DoRender] @ rest) \<and>
   Uncaught ''render'' \<notin> set (trace (after_ticks Returns failing_ticks (Suc 2))) \<and>
   scheduled (after_ticks Returns failing_ticks (Suc 2)) = 1 \<and>
   input_outcome (failing_ticks (Suc (Suc 2))) = Returns \<and>
   state_outcome (failing_ticks (Suc (Suc 2))) = Returns \<and>
   render_outcome (failing_ticks (Suc (Suc 2))) = Returns \<and>
   trace (after_ticks Returns failing_ticks (Suc (Suc 2))) =
     trace (after_ticks Returns failing_ticks (Suc 2)) @
     [RequestAnimationFrame, DoInputProcessing, DoUpdateGameState, DoRender]"
proof -
  have o1: "input_outcome (failing_ticks (Suc 0)) = Returns \<and>
            state_outcome (failing_ticks (Suc 0)) = Throws ''state''"
    by (simp add: failing_ticks_def)
  have o2: "input_outcome (failing_ticks (Suc 1)) = Throws ''input''"
    by (simp add: failing_ticks_def)
  have o3: "input_outcome (failing_ticks (Suc 2)) = Returns \<and>
            state_outcome (failing_ticks (Suc 2)) = Returns \<and>
            render_outcome (failing_ticks (Suc 2)) = Throws ''render''"
    by (simp add: failing_ticks_def numeral_2_eq_2)
  have o4: "input_outcome (failing_ticks (Suc (Suc 2))) = Returns \<and>
            state_outcome (failing_ticks (Suc (Suc 2))) = Returns \<and>
            render_outcome (failing_ticks (Suc (Suc 2))) = Returns"
    by (simp add: failing_ticks_def numeral_2_eq_2)
  note t1 = tick_failure_is_contained[of failing_ticks 0 "''state''" Returns]
  note t2 = tick_failure_is_contained[of failing_ticks 1 "''input''" Returns]
  note t3 = tick_failure_is_contained[of failing_ticks 2 "''render''" Returns]
  have c1: "trace (after_ticks Returns failing_ticks (Suc 0)) =
              trace (after_ticks Returns failing_ticks 0) @
              [RequestAnimationFrame, DoInputProcessing, DoUpdateGameState, ConsoleError ''state'']"
    using t1[THEN conjunct2, THEN conjunct1] o1 by (rule mp)
  have c2: "trace (after_ticks Returns failing_ticks (Suc 1)) =
              trace (after_ticks Returns failing_ticks 1) @
              [RequestAnimationFrame, DoInputProcessing, ConsoleError ''input'']"
    using t2[THEN conjunct1] o2 by (rule mp)
  have c3: "trace (after_ticks Returns failing_ticks (Suc 2)) =
              trace (after_ticks Returns failing_ticks 2) @
              [RequestAnimationFrame, DoInputProcessing, DoUpdateGameState, DoRender,
               ConsoleError ''render'']"
    using t3[THEN conjunct2, THEN conjunct2, THEN conjunct1] o3 by (rule mp)
  have o3': "input_outcome (failing_ticks (Suc (Suc 1))) = Returns \<and>
             state_outcome (failing_ticks (Suc (Suc 1))) = Returns"
    by (simp add: failing_ticks_def)
  have c3': "\<exists>rest. trace (after_ticks Returns failing_ticks (Suc (Suc 1))) =
      trace (after_ticks Returns failing_ticks (Suc 1)) @
      [RequestAnimationFrame, DoInputProcessing, DoUpdateGameState, DoRender] @ rest"
    using t2[THEN conjunct2, THEN conjunct2, THEN conjunct2, THEN conjunct2, THEN conjunct2,
             THEN conjunct2, THEN conjunct1] o3' by (rule mp)
  have c4: "Uncaught ''render'' \<notin> set (trace (after_ticks Returns failing_ticks (Suc 2)))"
    using t3[THEN conjunct2, THEN conjunct2, THEN conjunct2, THEN conjunct1] by (rule spec)
  have c5: "scheduled (after_ticks Returns failing_ticks (Suc 2)) = 1"
    by (rule t3[THEN conjunct2, THEN conjunct2, THEN conjunct2, THEN conjunct2, THEN conjunct1])
  have c6: "trace (after_ticks Returns failing_ticks (Suc (Suc 2))) =
              trace (after_ticks Returns failing_ticks (Suc 2)) @
              [RequestAnimationFrame, DoInputProcessing, DoUpdateGameState, DoRender]"
    using t3[THEN conjunct2, THEN conjunct2, THEN conjunct2, THEN conjunct2, THEN conjunct2,
             THEN conjunct2, THEN conjunct2] o4 by (rule mp)
  show ?thesis
    by (intro conjI o2 c2 o1[THEN conjunct1] o1[THEN conjunct2] c1
        o3[THEN conjunct1] o3[THEN conjunct2, THEN conjunct1] o3[THEN conjunct2, THEN conjunct2]
        c3 c3' c4 c5 o4[THEN conjunct1] o4[THEN conjunct2, THEN conjunct1]
        o4[THEN conjunct2, THEN conjunct2] c6)
qed

text \<open>
  C7. When \<open>initialize()\<close> throws in \<open>start\<close>, the exception is logged, \<open>start\<close> returns
  normally, and the main loop has begun: the first tick has requested the next animation
  frame (one callback is pending) and has called input processing.
\<close>

theorem start_survives_initialize_failure:
  "initialize_display (Throws e) initial_host = \<lparr>scheduled = 0, trace = [Initialize, ConsoleError e]\<rparr> \<and>
   fst (start (Throws e) env initial_host) = Inr () \<and>
   scheduled (snd (start (Throws e) env initial_host)) = 1 \<and>
   (\<exists>rest. trace (snd (start (Throws e) env initial_host)) =
      [Initialize, ConsoleError e, RequestAnimationFrame, DoInputProcessing] @ rest)"
proof -
  have i: "initialize_display (Throws e) initial_host =
             \<lparr>scheduled = 0, trace = [Initialize, ConsoleError e]\<rparr>"
    by (simp add: initialize_display_def call_def console_error_def initial_host_def)
  have "trace (snd (start (Throws e) env initial_host)) =
          [Initialize, ConsoleError e, RequestAnimationFrame, DoInputProcessing] @
          drop 2 (drop (length (trace (initialize_display (Throws e) initial_host)))
             (trace (snd (main env (initialize_display (Throws e) initial_host)))))"
    by (simp add: start_def doMainLoop_def main_trace i)
  then have t: "\<exists>rest. trace (snd (start (Throws e) env initial_host)) =
      [Initialize, ConsoleError e, RequestAnimationFrame, DoInputProcessing] @ rest" by blast
  have r: "fst (start (Throws e) env initial_host) = Inr ()"
    by (simp add: start_def doMainLoop_def main_result)
  have s: "scheduled (snd (start (Throws e) env initial_host)) = 1"
    by (simp add: start_def doMainLoop_def main_scheduled i)
  from i r s t show ?thesis by blast
qed

end
